theory Spec2Isabelle
  imports Main
begin

section \<open>Entity upload: grouping detected entities with their locations\<close>

text \<open>
  \<^verbatim>\<open>common/commands/upload_entities.py\<close>. The entity and location classes live in
  \<^verbatim>\<open>common.types\<close>; the code reads \<^verbatim>\<open>entity.id_\<close>, \<^verbatim>\<open>entity.tex_path\<close>,
  \<^verbatim>\<open>h.entity_id\<close> and \<^verbatim>\<open>h.tex_path\<close> only, so both are extensible records with
  these fields, and every other column sits in the extension part.
  The field \<^verbatim>\<open>id_\<close> is written \<open>ident\<close> (a trailing underscore is not a legal name).
\<close>

record SerializableEntity =
  ident :: string
  tex_path :: string

record HueLocationInfo =
  tex_path :: string
  entity_id :: string

datatype ('e, 'h) EntityAndLocation =
  EntityAndLocation (entity: 'e) (locations: "'h list")

text \<open>
  The two local variables of \<^verbatim>\<open>load\<close> that lines 81 to 88 assign. They are function
  locals, so they survive from one paper of the outer loop to the next; the record makes
  that explicit.
\<close>

record ('e, 'h) load_locals =
  localized_enitites :: "('e, 'h) EntityAndLocation list"
  matching_locations :: "'h list"

text \<open>The inner loop, lines 84 to 86: \<^verbatim>\<open>for h in hue_location_infos\<close>.\<close>

fun hue_loop :: "'a SerializableEntity_scheme \<Rightarrow> 'b HueLocationInfo_scheme list \<Rightarrow>
    ('a SerializableEntity_scheme, 'b HueLocationInfo_scheme) load_locals \<Rightarrow>
    ('a SerializableEntity_scheme, 'b HueLocationInfo_scheme) load_locals" where
  "hue_loop e [] st = st"
| "hue_loop e (h # hs) st =
     hue_loop e hs
       (if entity_id h = ident e \<and> HueLocationInfo.tex_path h = SerializableEntity.tex_path e
        then st\<lparr>matching_locations := matching_locations st @ [h]\<rparr>
        else st)"

text \<open>The outer loop, lines 82 to 88: \<^verbatim>\<open>for entity in entities\<close>.\<close>

fun entity_loop :: "'a SerializableEntity_scheme list \<Rightarrow> 'b HueLocationInfo_scheme list \<Rightarrow>
    ('a SerializableEntity_scheme, 'b HueLocationInfo_scheme) load_locals \<Rightarrow>
    ('a SerializableEntity_scheme, 'b HueLocationInfo_scheme) load_locals" where
  "entity_loop [] hue_location_infos st = st"
| "entity_loop (e # entities) hue_location_infos st =
     (let st1 = st\<lparr>matching_locations := []\<rparr>;
          st2 = hue_loop e hue_location_infos st1;
          st3 = st2\<lparr>localized_enitites :=
                  localized_enitites st2 @ [EntityAndLocation e (matching_locations st2)]\<rparr>
      in entity_loop entities hue_location_infos st3)"

text \<open>
  Lines 81 to 88 as a block, run on whatever the locals held before:
  line 81 rebinds \<^verbatim>\<open>localized_enitites\<close> to a new empty list.
\<close>

definition join_block :: "('a SerializableEntity_scheme, 'b HueLocationInfo_scheme) load_locals \<Rightarrow>
    'a SerializableEntity_scheme list \<Rightarrow> 'b HueLocationInfo_scheme list \<Rightarrow>
    ('a SerializableEntity_scheme, 'b HueLocationInfo_scheme) load_locals" where
  "join_block st entities hue_location_infos =
     entity_loop entities hue_location_infos (st\<lparr>localized_enitites := []\<rparr>)"

text \<open>The join of the specification: the list that line 91 hands to the result.\<close>

definition join :: "'a SerializableEntity_scheme list \<Rightarrow> 'b HueLocationInfo_scheme list \<Rightarrow>
    ('a SerializableEntity_scheme, 'b HueLocationInfo_scheme) EntityAndLocation list" where
  "join entities hue_location_infos =
     localized_enitites
       (join_block \<lparr>localized_enitites = [], matching_locations = []\<rparr>
          entities hue_location_infos)"

subsection \<open>Which entity class a file is loaded as\<close>

text \<open>
  \<^verbatim>\<open>Type[SerializableEntity]\<close>: the base class, or one of its subclasses (named).
  \<^verbatim>\<open>DetectedEntityTypeArg\<close> is the union of a dictionary, a single class and \<^verbatim>\<open>None\<close>.
\<close>

datatype EntityType = SerializableEntityType | EntitySubtype string

datatype DetectedEntityTypeArg =
    NoneArg
  | TypeArg EntityType
  | DictArg "string \<rightharpoonup> EntityType"

datatype KeyError = KeyError string

text \<open>\<^verbatim>\<open>UploadEntitiesCommand.get_detected_entity_type\<close>, lines 31 to 40.\<close>

definition base_get_detected_entity_type :: "string option \<Rightarrow> EntityType" where
  "base_get_detected_entity_type entity_filename = SerializableEntityType"

text \<open>\<^verbatim>\<open>DetectedEntityType[entity_filename]\<close>: a missing key raises.\<close>

definition dict_getitem :: "(string \<rightharpoonup> EntityType) \<Rightarrow> string \<Rightarrow> KeyError + EntityType" where
  "dict_getitem d k = (case d k of None \<Rightarrow> Inl (KeyError k) | Some v \<Rightarrow> Inr v)"

definition no_entity_type_warning :: "string \<Rightarrow> string" where
  "no_entity_type_warning entity_filename =
     ''No entity type specified for file '' @ entity_filename @
     ''. Only generic entity properties will be loaded for entities from file '' @
     entity_filename @ ''.''"

text \<open>
  \<^verbatim>\<open>C.get_detected_entity_type\<close>, lines 133 to 150. The log of \<^verbatim>\<open>logging.warning\<close>
  is passed in and returned.
\<close>

definition get_detected_entity_type ::
    "DetectedEntityTypeArg \<Rightarrow> string option \<Rightarrow> string list \<Rightarrow> EntityType \<times> string list" where
  "get_detected_entity_type DetectedEntityType entity_filename log =
     (case entity_filename of
        None \<Rightarrow> (base_get_detected_entity_type entity_filename, log)
      | Some fname \<Rightarrow>
          (case DetectedEntityType of
             NoneArg \<Rightarrow> (base_get_detected_entity_type entity_filename, log)
           | DictArg d \<Rightarrow>
               (case dict_getitem d fname of
                  Inr ty \<Rightarrow> (ty, log)
                | Inl (KeyError _) \<Rightarrow>
                    (base_get_detected_entity_type entity_filename,
                     log @ [no_entity_type_warning fname]))
           | TypeArg ty \<Rightarrow> (ty, log)))"

section \<open>Scraping bibliography items from TeX\<close>

text \<open>
  \<^verbatim>\<open>explanations/scrape_tex.py\<close>. Python strings are lists of characters; only code
  points below 256 are representable. \<open>isspace\<close> is the set that both \<^verbatim>\<open>\s\<close> of the
  \<^verbatim>\<open>re\<close> module (on a \<^verbatim>\<open>str\<close> pattern) and \<^verbatim>\<open>str.strip()\<close> use, cut to that range.
\<close>

definition isspace :: "char \<Rightarrow> bool" where
  "isspace c = (of_char c \<in> {9, 10, 11, 12, 13, 28, 29, 30, 31, 32, 133, 160 :: nat})"

text \<open>
  \<^verbatim>\<open>TEX_BREAK = r"\n\s*?\n"\<close>. \<open>lazy_ws_newline\<close> is the tail \<^verbatim>\<open>\s*?\n\<close> matched at
  the head of a string, \<open>TEX_BREAK_at\<close> the whole pattern matched at the head.
\<close>

fun lazy_ws_newline :: "string \<Rightarrow> bool" where
  "lazy_ws_newline [] = False"
| "lazy_ws_newline (c # cs) = (c = CHR 0x0A \<or> (isspace c \<and> lazy_ws_newline cs))"

fun TEX_BREAK_at :: "string \<Rightarrow> bool" where
  "TEX_BREAK_at [] = False"
| "TEX_BREAK_at (c # cs) = (c = CHR 0x0A \<and> lazy_ws_newline cs)"

text \<open>\<^verbatim>\<open>_contains_break\<close>: \<^verbatim>\<open>re.search\<close> tries every start position.\<close>

fun contains_break :: "string \<Rightarrow> bool" where
  "contains_break [] = False"
| "contains_break (c # cs) = (TEX_BREAK_at (c # cs) \<or> contains_break cs)"

text \<open>
  \<^verbatim>\<open>_get_text_before_break\<close>: the first piece of \<^verbatim>\<open>re.split(TEX_BREAK, text, maxsplit=1)\<close>,
  that is the text before the leftmost match, or the whole text when nothing matches.
\<close>

fun get_text_before_break :: "string \<Rightarrow> string" where
  "get_text_before_break [] = []"
| "get_text_before_break (c # cs) =
     (if TEX_BREAK_at (c # cs) then [] else c # get_text_before_break cs)"

text \<open>\<^verbatim>\<open>re.sub(r"\s+", " ", text)\<close>: every maximal run of whitespace becomes one space.\<close>

function sub_ws :: "string \<Rightarrow> string" where
  "sub_ws [] = []"
| "sub_ws (c # cs) =
     (if isspace c then CHR '' '' # sub_ws (dropWhile isspace cs) else c # sub_ws cs)"
  by pat_completeness auto
termination
  by (relation "measure length") (auto simp: length_dropWhile_le less_Suc_eq_le)

definition strip :: "string \<Rightarrow> string" where
  "strip s = rev (dropWhile isspace (rev (dropWhile isspace s)))"

definition clean_bibitem_text :: "string \<Rightarrow> string" where
  "clean_bibitem_text t = strip (sub_ws t)"

subsection \<open>What the extractor sees of a TexSoup tree\<close>

text \<open>
  TexSoup is a library outside the repository. The extractor reads: the arguments of a
  command (\<^verbatim>\<open>RArg\<close> or another kind, each with its \<^verbatim>\<open>value\<close>, a string), the expression
  of a node (a \<^verbatim>\<open>TexCmd\<close> with a name, or something else), the \<^verbatim>\<open>string\<close> attribute of a
  node, the text of a token, the contents of a parent, and object identity of parents.
\<close>

datatype Arg = is_RArg: RArg (arg_value: string) | OArg (arg_value: string)

record TexCmd =
  name :: string
  args :: "Arg list"

datatype TexExpr = Cmd TexCmd | OtherExpr

datatype Content =
    TexNode TexExpr "string option"
  | TokenWithPosition string
  | OtherContent

text \<open>
  A node that has contents. \<open>node_id\<close> stands for object identity: membership in
  \<^verbatim>\<open>nodes_scanned\<close> is by identity in Python.
\<close>

record ParentNode =
  node_id :: nat
  contents :: "Content list"

text \<open>A node that \<^verbatim>\<open>soup.find_all("bibitem")\<close> yields; only its parent is read.\<close>

datatype FoundNode = FoundNode (parent: ParentNode)

text \<open>The soup, as the list \<^verbatim>\<open>soup.find_all("bibitem")\<close> yields, in its order.\<close>

type_synonym soup = "FoundNode list"

text \<open>
  The parser is a parameter, and stands for one call of \<^verbatim>\<open>TexSoup\<close>: a function from
  the text to a soup or an exception. A later call builds new objects, so its parents
  have other identities and it is another value of the parameter; one value used for two
  calls on one extractor object would hand it parents it has scanned already. No
  statement below does that: \<^verbatim>\<open>extract_bibitems\<close> makes a new extractor for every call.
  What the call \<^verbatim>\<open>TexSoup(tex)\<close> may raise: the two classes \<^verbatim>\<open>parse_tex\<close> names, each
  with its message, or any other exception.
\<close>

datatype TexSoup_exn = TypeError string | EOFError string | OtherException string

text \<open>What leaves \<^verbatim>\<open>parse_tex\<close>: its own error, or an exception it did not catch.\<close>

datatype extract_exn = TexSoupParseError string | Uncaught TexSoup_exn

type_synonym TexSoup = "string \<Rightarrow> TexSoup_exn + soup"

definition parse_tex :: "TexSoup \<Rightarrow> string \<Rightarrow> extract_exn + soup" where
  "parse_tex TexSoup tex =
     (case TexSoup tex of
        Inr soup \<Rightarrow> Inr soup
      | Inl (TypeError msg) \<Rightarrow> Inl (TexSoupParseError msg)
      | Inl (EOFError msg) \<Rightarrow> Inl (TexSoupParseError msg)
      | Inl (OtherException msg) \<Rightarrow> Inl (Uncaught (OtherException msg)))"

subsection \<open>The extractor\<close>

record Bibitem =
  key :: string
  "text" :: string

record BibitemExtractor =
  current_bibitem_label :: "string option"
  bibitem_text :: string
  nodes_scanned :: "ParentNode set"
  bibitems :: "Bibitem list"

text \<open>\<^verbatim>\<open>BibitemExtractor.__init__\<close>.\<close>

definition BibitemExtractor_init :: BibitemExtractor where
  "BibitemExtractor_init =
     \<lparr>current_bibitem_label = None, bibitem_text = '''', nodes_scanned = {}, bibitems = []\<rparr>"

text \<open>\<^verbatim>\<open>_extract_label\<close>: the loop over \<^verbatim>\<open>bibitem.args\<close>, then the function.\<close>

fun first_RArg :: "Arg list \<Rightarrow> string option" where
  "first_RArg [] = None"
| "first_RArg (RArg v # rest) = Some v"
| "first_RArg (OArg v # rest) = first_RArg rest"

definition extract_label :: "TexCmd \<Rightarrow> string option" where
  "extract_label bibitem = first_RArg (args bibitem)"

text \<open>\<^verbatim>\<open>_finalize_bibitem\<close>.\<close>

definition finalize_bibitem :: "BibitemExtractor \<Rightarrow> BibitemExtractor" where
  "finalize_bibitem s =
     (let s1 = (case current_bibitem_label s of
                  Some label \<Rightarrow>
                    s\<lparr>bibitems := bibitems s @
                        [\<lparr>key = label, text = clean_bibitem_text (bibitem_text s)\<rparr>]\<rparr>
                | None \<Rightarrow> s)
      in s1\<lparr>current_bibitem_label := None, bibitem_text := ''''\<rparr>)"

text \<open>
  \<^verbatim>\<open>_process_content\<close>, in three parts: the test of lines 56 to 58 (\<open>bibitem_cmd\<close> gives
  the command when the content is a node whose expression is a \<^verbatim>\<open>TexCmd\<close> named
  \<^verbatim>\<open>bibitem\<close>), the text of lines 64 to 68, and the method.
\<close>

fun bibitem_cmd :: "Content \<Rightarrow> TexCmd option" where
  "bibitem_cmd (TexNode (Cmd cmd) str) = (if name cmd = ''bibitem'' then Some cmd else None)"
| "bibitem_cmd (TexNode OtherExpr str) = None"
| "bibitem_cmd (TokenWithPosition t) = None"
| "bibitem_cmd OtherContent = None"

fun content_text :: "Content \<Rightarrow> string option" where
  "content_text (TexNode e (Some str)) = Some str"
| "content_text (TexNode e None) = None"
| "content_text (TokenWithPosition t) = Some t"
| "content_text OtherContent = None"

definition process_content :: "BibitemExtractor \<Rightarrow> Content \<Rightarrow> BibitemExtractor" where
  "process_content s content =
     (case bibitem_cmd content of
        Some cmd \<Rightarrow>
          (let s1 = (if current_bibitem_label s \<noteq> None then finalize_bibitem s else s)
           in s1\<lparr>current_bibitem_label := extract_label cmd\<rparr>)
      | None \<Rightarrow>
          (case (current_bibitem_label s, content_text content) of
             (Some label, Some txt) \<Rightarrow>
               (if contains_break txt
                then finalize_bibitem
                       (s\<lparr>bibitem_text := bibitem_text s @ get_text_before_break txt\<rparr>)
                else s\<lparr>bibitem_text := bibitem_text s @ txt\<rparr>)
           | _ \<Rightarrow> s))"

text \<open>Line 50: \<^verbatim>\<open>for content in parent.contents\<close>.\<close>

fun process_contents :: "BibitemExtractor \<Rightarrow> Content list \<Rightarrow> BibitemExtractor" where
  "process_contents s [] = s"
| "process_contents s (content # rest) = process_contents (process_content s content) rest"

text \<open>Lines 46 to 51: \<^verbatim>\<open>for bibitem in soup.find_all("bibitem")\<close>.\<close>

fun scan_found :: "BibitemExtractor \<Rightarrow> FoundNode list \<Rightarrow> BibitemExtractor" where
  "scan_found s [] = s"
| "scan_found s (bibitem # rest) =
     (if parent bibitem \<notin> nodes_scanned s
      then scan_found
             (process_contents
                (s\<lparr>nodes_scanned := insert (parent bibitem) (nodes_scanned s)\<rparr>)
                (contents (parent bibitem)))
             rest
      else scan_found s rest)"

text \<open>
  \<^verbatim>\<open>BibitemExtractor.extract\<close>: the value returned or the exception raised, and the
  object afterwards.
\<close>

definition "extract" ::
    "TexSoup \<Rightarrow> BibitemExtractor \<Rightarrow> string \<Rightarrow> (extract_exn + Bibitem list) \<times> BibitemExtractor" where
  "extract TexSoup s tex =
     (let s0 = s\<lparr>bibitems := []\<rparr>
      in case parse_tex TexSoup tex of
           Inl e \<Rightarrow> (Inl e, s0)
         | Inr soup \<Rightarrow>
             (let s1 = finalize_bibitem (scan_found s0 soup)
              in (Inr (bibitems s1), s1)))"

text \<open>\<^verbatim>\<open>extract_bibitems\<close>: a new extractor for every call.\<close>

definition extract_bibitems :: "TexSoup \<Rightarrow> string \<Rightarrow> extract_exn + Bibitem list" where
  "extract_bibitems TexSoup tex =
     (let extractor = BibitemExtractor_init in fst (extract TexSoup extractor tex))"

text \<open>
  The same call with the objects made by earlier calls in view: the store holds every
  extractor allocated so far, the call allocates one more and leaves it behind.
\<close>

definition extract_bibitems_in ::
    "TexSoup \<Rightarrow> BibitemExtractor list \<Rightarrow> string \<Rightarrow>
     (extract_exn + Bibitem list) \<times> BibitemExtractor list" where
  "extract_bibitems_in TexSoup store tex =
     (let a = length store;
          store1 = store @ [BibitemExtractor_init];
          (bibitems, extractor) = extract TexSoup (store1 ! a) tex
      in (bibitems, store1[a := extractor]))"

subsection \<open>Vocabulary of the statements\<close>

text \<open>The contents the extractor walks through for a soup: those of each parent, once,
  in the order the parents are first met.\<close>

fun unscanned_parents :: "ParentNode set \<Rightarrow> FoundNode list \<Rightarrow> ParentNode list" where
  "unscanned_parents seen [] = []"
| "unscanned_parents seen (b # rest) =
     (if parent b \<in> seen then unscanned_parents seen rest
      else parent b # unscanned_parents (insert (parent b) seen) rest)"

definition scanned_contents :: "soup \<Rightarrow> Content list" where
  "scanned_contents soup = concat (map contents (unscanned_parents {} soup))"

text \<open>The labels of the markers of a contents list that have one, in order.\<close>

fun marker_labels :: "Content list \<Rightarrow> string list" where
  "marker_labels [] = []"
| "marker_labels (c # cs) =
     (case bibitem_cmd c of
        Some cmd \<Rightarrow> (case extract_label cmd of Some l \<Rightarrow> l # marker_labels cs
                                              | None \<Rightarrow> marker_labels cs)
      | None \<Rightarrow> marker_labels cs)"

text \<open>A content that is a marker with a label.\<close>

definition labelled_marker :: "Content \<Rightarrow> bool" where
  "labelled_marker c =
     (case bibitem_cmd c of Some cmd \<Rightarrow> extract_label cmd \<noteq> None | None \<Rightarrow> False)"

text \<open>No two whitespace characters side by side.\<close>

fun no_ws_run :: "string \<Rightarrow> bool" where
  "no_ws_run (c # d # cs) = (\<not> (isspace c \<and> isspace d) \<and> no_ws_run (d # cs))"
| "no_ws_run cs = True"

text \<open>A text in which every whitespace character is a single space between two
  other characters.\<close>

definition normalized :: "string \<Rightarrow> bool" where
  "normalized t =
     (list_all (\<lambda>c. isspace c \<longrightarrow> c = CHR '' '') t \<and> no_ws_run t \<and>
      (t \<noteq> [] \<longrightarrow> \<not> isspace (hd t) \<and> \<not> isspace (last t)))"

text \<open>A parser that raises the given exception on every input, and one that returns
  the given soup.\<close>

definition TexSoup_raising :: "TexSoup_exn \<Rightarrow> TexSoup" where
  "TexSoup_raising e tex = Inl e"

definition TexSoup_returning :: "soup \<Rightarrow> TexSoup" where
  "TexSoup_returning soup tex = Inr soup"

text \<open>The label of the item that is open, as a list of at most one.\<close>

definition open_labels :: "BibitemExtractor \<Rightarrow> string list" where
  "open_labels s = (case current_bibitem_label s of None \<Rightarrow> [] | Some l \<Rightarrow> [l])"

text \<open>A marker node with the given arguments, and the parent of the document
  \<^verbatim>\<open>\bibitem{a} Alpha  text. \bibitem{b} Beta text.\<close>\<close>

definition bibitem_node :: "Arg list \<Rightarrow> Content" where
  "bibitem_node as = TexNode (Cmd \<lparr>name = ''bibitem'', args = as\<rparr>) None"

definition alpha_beta_block :: ParentNode where
  "alpha_beta_block = \<lparr>node_id = 0, contents =
     [bibitem_node [RArg ''a''], TokenWithPosition '' Alpha  text. '',
      bibitem_node [RArg ''b''], TokenWithPosition '' Beta text.'']\<rparr>"

text \<open>A text with a blank line in it: \<^verbatim>\<open>" Alpha\n\nstray text "\<close>.\<close>

definition stray_text :: string where
  "stray_text = '' Alpha'' @ [CHR 0x0A, CHR 0x0A] @ ''stray text ''"

text \<open>The parent of the document \<^verbatim>\<open>\bibitem{a}\bibitem{b}Beta\<close>, with a content that
  has no text between the two markers.\<close>

definition empty_entry_block :: ParentNode where
  "empty_entry_block = \<lparr>node_id = 0, contents =
     [bibitem_node [RArg ''a''], OtherContent, bibitem_node [RArg ''b''],
      TokenWithPosition ''Beta'']\<rparr>"

text \<open>While no item is open the buffer is empty.\<close>

definition idle_buffer_empty :: "BibitemExtractor \<Rightarrow> bool" where
  "idle_buffer_empty s = (current_bibitem_label s = None \<longrightarrow> bibitem_text s = '''')"

text \<open>
  The paragraph break in the words of the specification, to be compared with
  \<open>TEX_BREAK_at\<close>: a newline, optional horizontal whitespace, a newline. Horizontal
  whitespace is whitespace other than line feed, vertical tab, form feed and carriage
  return. \<open>spec_contains_break\<close> and \<open>spec_text_before_break\<close> are \<open>contains_break\<close>
  and \<open>get_text_before_break\<close> for this pattern.
\<close>

definition horizontal_space :: "char \<Rightarrow> bool" where
  "horizontal_space c = (isspace c \<and> of_char c \<notin> {10, 11, 12, 13 :: nat})"

fun spec_hspace_newline :: "string \<Rightarrow> bool" where
  "spec_hspace_newline [] = False"
| "spec_hspace_newline (c # cs) =
     (c = CHR 0x0A \<or> (horizontal_space c \<and> spec_hspace_newline cs))"

fun spec_break_at :: "string \<Rightarrow> bool" where
  "spec_break_at [] = False"
| "spec_break_at (c # cs) = (c = CHR 0x0A \<and> spec_hspace_newline cs)"

fun spec_contains_break :: "string \<Rightarrow> bool" where
  "spec_contains_break [] = False"
| "spec_contains_break (c # cs) = (spec_break_at (c # cs) \<or> spec_contains_break cs)"

fun spec_text_before_break :: "string \<Rightarrow> string" where
  "spec_text_before_break [] = []"
| "spec_text_before_break (c # cs) =
     (if spec_break_at (c # cs) then [] else c # spec_text_before_break cs)"

text \<open>The text \<^verbatim>\<open>"a\r\n\r\nb\n\nc"\<close>.\<close>

definition crlf_text :: string where
  "crlf_text = ''a'' @ [CHR 0x0D, CHR 0x0A, CHR 0x0D, CHR 0x0A] @ ''b'' @
               [CHR 0x0A, CHR 0x0A] @ ''c''"

text \<open>
  The words of a text, as \<^verbatim>\<open>str.split()\<close> gives them: the maximal runs of characters
  that are no whitespace. \<open>split_acc\<close> carries the word being read. \<open>join_words\<close> puts
  one space between two words, as \<^verbatim>\<open>" ".join\<close> does.
\<close>

fun split_acc :: "string \<Rightarrow> string \<Rightarrow> string list" where
  "split_acc w [] = (if w = [] then [] else [w])"
| "split_acc w (c # cs) =
     (if isspace c then (if w = [] then split_acc [] cs else w # split_acc [] cs)
      else split_acc (w @ [c]) cs)"

definition ws_words :: "string \<Rightarrow> string list" where
  "ws_words t = split_acc [] t"

fun join_words :: "string list \<Rightarrow> string" where
  "join_words [] = []"
| "join_words [w] = w"
| "join_words (w # v # ws) = w @ CHR '' '' # join_words (v # ws)"

text \<open>
  The items in the words of the specification, without the extractor. A marker is a
  node whose expression is a command named \<^verbatim>\<open>bibitem\<close>; its label is the value of its
  first required argument. The body of an item is the text of the contents after its
  marker, up to the next marker or up to the first paragraph break, whichever comes
  first. \<open>raw_items\<close> pairs the label of every marker that has one with the body that
  follows it; \<open>cleaned_item\<close> is the item with the words of the body joined by spaces.
\<close>

fun is_marker :: "Content \<Rightarrow> bool" where
  "is_marker (TexNode (Cmd cmd) str) = (name cmd = ''bibitem'')"
| "is_marker (TexNode OtherExpr str) = False"
| "is_marker (TokenWithPosition t) = False"
| "is_marker OtherContent = False"

fun marker_label :: "Content \<Rightarrow> string option" where
  "marker_label (TexNode (Cmd cmd) str) = map_option arg_value (find is_RArg (args cmd))"
| "marker_label (TexNode OtherExpr str) = None"
| "marker_label (TokenWithPosition t) = None"
| "marker_label OtherContent = None"

fun plain_text :: "Content \<Rightarrow> string option" where
  "plain_text (TexNode e str) = str"
| "plain_text (TokenWithPosition t) = Some t"
| "plain_text OtherContent = None"

fun item_body :: "Content list \<Rightarrow> string" where
  "item_body [] = []"
| "item_body (c # cs) =
     (if is_marker c then []
      else case plain_text c of
             None \<Rightarrow> item_body cs
           | Some t \<Rightarrow> if contains_break t then get_text_before_break t
                       else t @ item_body cs)"

fun raw_items :: "Content list \<Rightarrow> (string \<times> string) list" where
  "raw_items [] = []"
| "raw_items (c # cs) =
     (if is_marker c
      then (case marker_label c of
              Some l \<Rightarrow> (l, item_body cs) # raw_items cs
            | None \<Rightarrow> raw_items cs)
      else raw_items cs)"

definition cleaned_item :: "string \<times> string \<Rightarrow> Bibitem" where
  "cleaned_item p = \<lparr>key = fst p, text = join_words (ws_words (snd p))\<rparr>"

text \<open>
  Modelled from the spec: the tree of the parse adapter, which is not part of the
  repository (sections 2 and 3 of the specification: nodes with children, a parent
  reference, and a search for all nodes of a kind). A leaf is a content without
  children; a branch has an identity, an expression, its \<^verbatim>\<open>string\<close> attribute and
  children. \<open>as_content\<close> is how a tree shows in the contents of its parent;
  \<open>document_labels\<close> lists the labels of the markers from the top of the document to its
  end; \<open>find_all_bibitem\<close> is the search in document order, each marker with its parent.
\<close>

datatype TexTree = Leaf Content | Branch nat TexExpr "string option" "TexTree list"

fun as_content :: "TexTree \<Rightarrow> Content" where
  "as_content (Leaf c) = c"
| "as_content (Branch i e str ts) = TexNode e str"

definition own_label :: "Content \<Rightarrow> string list" where
  "own_label c =
     (if is_marker c then (case marker_label c of Some l \<Rightarrow> [l] | None \<Rightarrow> []) else [])"

fun document_labels :: "TexTree \<Rightarrow> string list" where
  "document_labels (Leaf c) = own_label c"
| "document_labels (Branch i e str ts) =
     own_label (TexNode e str) @ concat (map document_labels ts)"

fun find_all_bibitem :: "TexTree \<Rightarrow> FoundNode list" where
  "find_all_bibitem (Leaf c) = []"
| "find_all_bibitem (Branch i e str ts) =
     concat (map (\<lambda>t. (if is_marker (as_content t)
                        then [FoundNode \<lparr>node_id = i, contents = map as_content ts\<rparr>]
                        else []) @ find_all_bibitem t) ts)"

text \<open>
  The document \<^verbatim>\<open>\bibitem{a} A \begin{e}\bibitem{b} B \end{e}\bibitem{c} C \<close>: a marker inside an
  environment that stands between two markers of the enclosing block. \<open>outer_parent\<close> and
  \<open>inner_parent\<close> are the two parents.
\<close>

definition nested_inner :: "TexTree list" where
  "nested_inner = [Leaf (bibitem_node [RArg ''b'']), Leaf (TokenWithPosition '' B '')]"

definition nested_outer :: "TexTree list" where
  "nested_outer =
     [Leaf (bibitem_node [RArg ''a'']), Leaf (TokenWithPosition '' A ''),
      Branch 1 OtherExpr None nested_inner,
      Leaf (bibitem_node [RArg ''c'']), Leaf (TokenWithPosition '' C '')]"

definition nested_tree :: TexTree where
  "nested_tree = Branch 0 OtherExpr None nested_outer"

definition outer_parent :: ParentNode where
  "outer_parent = \<lparr>node_id = 0, contents = map as_content nested_outer\<rparr>"

definition inner_parent :: ParentNode where
  "inner_parent = \<lparr>node_id = 1, contents = map as_content nested_inner\<rparr>"

text \<open>
  A location record with one more column, standing for the geometry columns, and an
  entity with one more column, standing for those of a subclass.
\<close>

record HueLocationBox = HueLocationInfo +
  box :: string

record SerializableEntityTex = SerializableEntity +
  entity_tex :: string

section \<open>The join\<close>

lemma hue_loop_eq:
  "hue_loop e hs st =
     st\<lparr>matching_locations := matching_locations st @
          filter (\<lambda>h. entity_id h = ident e \<and>
                      HueLocationInfo.tex_path h = SerializableEntity.tex_path e) hs\<rparr>"
  by (induction hs arbitrary: st) simp_all

lemma entity_loop_localized:
  "localized_enitites (entity_loop es hs st) =
     localized_enitites st @
     map (\<lambda>e. EntityAndLocation e
            (filter (\<lambda>h. entity_id h = ident e \<and>
                         HueLocationInfo.tex_path h = SerializableEntity.tex_path e) hs)) es"
  by (induction es arbitrary: st) (simp_all add: hue_loop_eq Let_def)

lemma join_block_localized:
  "localized_enitites (join_block st es hs) =
     map (\<lambda>e. EntityAndLocation e
            (filter (\<lambda>h. entity_id h = ident e \<and>
                         HueLocationInfo.tex_path h = SerializableEntity.tex_path e) hs)) es"
  by (simp add: join_block_def entity_loop_localized)

text \<open>
  C1. For all entities and all location records, \<open>join\<close> gives one \<open>EntityAndLocation\<close>
  per entity, in the order of the entities, and the locations of an entity are the
  location records whose \<open>(entity_id, tex_path)\<close> equals the entity's \<open>(id, tex_path)\<close>,
  in the order of the location input. With no matching record the list is empty;
  the join has no error result.
\<close>

theorem join_one_per_entity_with_matching_locations:
  "join es hs =
     map (\<lambda>e. EntityAndLocation e
            (filter (\<lambda>h. entity_id h = ident e \<and>
                         HueLocationInfo.tex_path h = SerializableEntity.tex_path e) hs)) es"
  by (simp add: join_def join_block_localized)

theorem join_one_per_entity_witness:
  "join [\<lparr>ident = ''e1'', tex_path = ''p.tex''\<rparr>, \<lparr>ident = ''e2'', tex_path = ''p.tex''\<rparr>]
        [\<lparr>tex_path = ''p.tex'', entity_id = ''e1'', box = ''A''\<rparr>,
         \<lparr>tex_path = ''p.tex'', entity_id = ''e1'', box = ''B''\<rparr>,
         \<lparr>tex_path = ''q.tex'', entity_id = ''e1'', box = ''C''\<rparr>]
   = [EntityAndLocation \<lparr>ident = ''e1'', tex_path = ''p.tex''\<rparr>
        [\<lparr>tex_path = ''p.tex'', entity_id = ''e1'', box = ''A''\<rparr>,
         \<lparr>tex_path = ''p.tex'', entity_id = ''e1'', box = ''B''\<rparr>],
      EntityAndLocation \<lparr>ident = ''e2'', tex_path = ''p.tex''\<rparr> []]"
  using join_one_per_entity_with_matching_locations
    [of "[\<lparr>ident = ''e1'', tex_path = ''p.tex''\<rparr>, \<lparr>ident = ''e2'', tex_path = ''p.tex''\<rparr>]"
        "[\<lparr>tex_path = ''p.tex'', entity_id = ''e1'', box = ''A''\<rparr>,
          \<lparr>tex_path = ''p.tex'', entity_id = ''e1'', box = ''B''\<rparr>,
          \<lparr>tex_path = ''q.tex'', entity_id = ''e1'', box = ''C''\<rparr>]"]
  by simp

text \<open>
  C10. The join does not deduplicate entities. When two entities of the input have the
  same \<open>(id, tex_path)\<close>, the output has an element for each, at the positions of the
  two entities, and both carry the same list: every location record that matches the
  pair, in input order.
\<close>

theorem join_keeps_duplicate_entities:
  assumes "ident e2 = ident e1"
      and "SerializableEntity.tex_path e2 = SerializableEntity.tex_path e1"
  shows "length (join (xs @ e1 # ys @ e2 # zs) hs) = length xs + length ys + length zs + 2
       \<and> join (xs @ e1 # ys @ e2 # zs) hs ! length xs =
           EntityAndLocation e1
             (filter (\<lambda>h. entity_id h = ident e1 \<and>
                HueLocationInfo.tex_path h = SerializableEntity.tex_path e1) hs)
       \<and> join (xs @ e1 # ys @ e2 # zs) hs ! (length xs + 1 + length ys) =
           EntityAndLocation e2
             (filter (\<lambda>h. entity_id h = ident e1 \<and>
                HueLocationInfo.tex_path h = SerializableEntity.tex_path e1) hs)"
proof -
  let ?f = "\<lambda>e. EntityAndLocation e
            (filter (\<lambda>h. entity_id h = ident e \<and>
                         HueLocationInfo.tex_path h = SerializableEntity.tex_path e) hs)"
  have j: "join (xs @ e1 # ys @ e2 # zs) hs = map ?f xs @ ?f e1 # map ?f ys @ ?f e2 # map ?f zs"
    by (simp add: join_def join_block_localized)
  have a: "(map ?f xs @ ?f e1 # map ?f ys @ ?f e2 # map ?f zs) ! length xs = ?f e1"
    by (simp add: nth_append)
  have "(map ?f xs @ (?f e1 # map ?f ys) @ ?f e2 # map ?f zs) ! (length (map ?f xs) + length (?f e1 # map ?f ys)) = ?f e2"
    unfolding nth_append_length_plus by (simp add: nth_append)
  then have b: "(map ?f xs @ ?f e1 # map ?f ys @ ?f e2 # map ?f zs) ! (length xs + 1 + length ys) = ?f e2"
    by simp
  show ?thesis unfolding j using a b assms by simp
qed

theorem join_keeps_duplicate_entities_witness:
  "join [\<lparr>ident = ''e1'', tex_path = ''p.tex'', entity_tex = ''x''\<rparr>,
         \<lparr>ident = ''e1'', tex_path = ''p.tex'', entity_tex = ''y''\<rparr>]
        [\<lparr>tex_path = ''p.tex'', entity_id = ''e1'', box = ''A''\<rparr>,
         \<lparr>tex_path = ''q.tex'', entity_id = ''e1'', box = ''C''\<rparr>,
         \<lparr>tex_path = ''p.tex'', entity_id = ''e1'', box = ''B''\<rparr>] ! 1
   = EntityAndLocation \<lparr>ident = ''e1'', tex_path = ''p.tex'', entity_tex = ''y''\<rparr>
        [\<lparr>tex_path = ''p.tex'', entity_id = ''e1'', box = ''A''\<rparr>,
         \<lparr>tex_path = ''p.tex'', entity_id = ''e1'', box = ''B''\<rparr>]"
  using join_keeps_duplicate_entities
    [of "\<lparr>ident = ''e1'', tex_path = ''p.tex'', entity_tex = ''y''\<rparr>"
        "\<lparr>ident = ''e1'', tex_path = ''p.tex'', entity_tex = ''x''\<rparr>"
        "[]" "[]" "[]"
        "[\<lparr>tex_path = ''p.tex'', entity_id = ''e1'', box = ''A''\<rparr>,
         \<lparr>tex_path = ''q.tex'', entity_id = ''e1'', box = ''C''\<rparr>,
         \<lparr>tex_path = ''p.tex'', entity_id = ''e1'', box = ''B''\<rparr>]"]
  by simp

section \<open>The entity class of a file\<close>

text \<open>
  C5 (as amended). With a mapping supplied, the file name is looked up in it by exact
  match: a name in the mapping gets its class and nothing is logged; a name absent from
  the mapping gets the generic class and one warning is logged. With no mapping supplied
  the generic class is returned and nothing is logged. Every case returns a class.
\<close>

theorem schema_lookup_falls_back_to_generic:
  "(d fname = Some ty \<longrightarrow>
      get_detected_entity_type (DictArg d) (Some fname) log = (ty, log))
 \<and> (d fname = None \<longrightarrow>
      get_detected_entity_type (DictArg d) (Some fname) log =
        (SerializableEntityType, log @ [no_entity_type_warning fname]))
 \<and> get_detected_entity_type NoneArg (Some fname) log = (SerializableEntityType, log)"
  by (simp add: get_detected_entity_type_def dict_getitem_def base_get_detected_entity_type_def)

theorem schema_lookup_falls_back_witness:
  "get_detected_entity_type
     (DictArg [''entities-terms.csv'' \<mapsto> EntitySubtype ''Term''])
     (Some ''entities-terms.csv'') [] = (EntitySubtype ''Term'', [])
 \<and> get_detected_entity_type
     (DictArg [''entities-terms.csv'' \<mapsto> EntitySubtype ''Term''])
     (Some ''entities-symbols.csv'') [] =
       (SerializableEntityType, [no_entity_type_warning ''entities-symbols.csv''])"
  using schema_lookup_falls_back_to_generic
    [of "[''entities-terms.csv'' \<mapsto> EntitySubtype ''Term'']" "''entities-terms.csv''"
        "EntitySubtype ''Term''" "[]"]
    schema_lookup_falls_back_to_generic
    [of "[''entities-terms.csv'' \<mapsto> EntitySubtype ''Term'']" "''entities-symbols.csv''"
        "EntitySubtype ''Term''" "[]"]
  by simp

text \<open>
  With no mapping supplied, the generic class comes back and the log stays empty: no
  warning is recorded.
\<close>

theorem no_mapping_records_no_warning:
  "get_detected_entity_type NoneArg (Some ''entities-terms.csv'') [] =
     (SerializableEntityType, [])"
  by (simp add: get_detected_entity_type_def base_get_detected_entity_type_def)

section \<open>Parse failures\<close>

text \<open>
  C7 (as amended). \<open>extract\<close> fails with \<open>TexSoupParseError\<close>, carrying the message of
  the parser's exception, exactly when the parser raises \<open>TypeError\<close> or \<open>EOFError\<close>.
  Any other exception of the parser leaves \<open>extract\<close> unwrapped. Whenever the parser
  raises, the call returns no list of items, and the extractor is as before the call with
  its item list emptied.
\<close>

theorem parse_error_iff_TypeError_or_EOFError:
  "(fst (extract TexSoup s tex) = Inl (TexSoupParseError msg)) =
     (TexSoup tex = Inl (TypeError msg) \<or> TexSoup tex = Inl (EOFError msg))
 \<and> (TexSoup tex = Inl (OtherException msg) \<longrightarrow>
      fst (extract TexSoup s tex) = Inl (Uncaught (OtherException msg)))
 \<and> (TexSoup tex = Inl e \<longrightarrow>
      isl (fst (extract TexSoup s tex)) \<and> snd (extract TexSoup s tex) = s\<lparr>bibitems := []\<rparr>)
 \<and> (extract_bibitems TexSoup tex = Inl (TexSoupParseError msg)) =
     (TexSoup tex = Inl (TypeError msg) \<or> TexSoup tex = Inl (EOFError msg))"
  by (auto simp: extract_def extract_bibitems_def parse_tex_def Let_def
           split: sum.splits TexSoup_exn.splits)

theorem parse_error_witness:
  "extract_bibitems (TexSoup_raising (EOFError ''eof'')) ''x'' = Inl (TexSoupParseError ''eof'')
 \<and> isl (fst (extract (TexSoup_raising (OtherException ''m'')) BibitemExtractor_init ''x''))"
  using parse_error_iff_TypeError_or_EOFError
    [of "TexSoup_raising (EOFError ''eof'')" BibitemExtractor_init "''x''" "''eof''" "EOFError ''eof''"]
    parse_error_iff_TypeError_or_EOFError
    [of "TexSoup_raising (OtherException ''m'')" BibitemExtractor_init "''x''" "''m''"
        "OtherException ''m''"]
  by (simp add: TexSoup_raising_def)

text \<open>
  A parser that raises an exception of another class: the input cannot be parsed, and
  what leaves \<open>extract_bibitems\<close> is that exception, not a \<open>TexSoupParseError\<close>.
\<close>

theorem unparseable_input_without_parse_error:
  "TexSoup_raising (OtherException ''m'') ''x'' = Inl (OtherException ''m'')
 \<and> extract_bibitems (TexSoup_raising (OtherException ''m'')) ''x'' =
     Inl (Uncaught (OtherException ''m''))"
  by (simp add: TexSoup_raising_def extract_bibitems_def extract_def parse_tex_def)


section \<open>Cleaning the text of an item\<close>

lemma no_ws_run_Cons:
  "no_ws_run (c # xs) = ((xs = [] \<or> \<not> (isspace c \<and> isspace (hd xs))) \<and> no_ws_run xs)"
  by (cases xs) auto

lemma no_ws_run_append: "no_ws_run (xs @ ys) \<Longrightarrow> no_ws_run xs \<and> no_ws_run ys"
proof (induction xs)
  case Nil
  then show ?case by simp
next
  case (Cons x xs)
  then show ?case by (cases xs) (auto simp: no_ws_run_Cons)
qed

lemma sub_ws_Nil_iff: "(sub_ws t = []) = (t = [])"
  by (cases t) simp_all

lemma sub_ws_hd: "t \<noteq> [] \<Longrightarrow> isspace (hd (sub_ws t)) = isspace (hd t)"
  by (cases t) (simp_all add: isspace_def)

lemma sub_ws_only_spaces: "list_all (\<lambda>c. isspace c \<longrightarrow> c = CHR '' '') (sub_ws t)"
  by (induction t rule: sub_ws.induct) simp_all

lemma dropWhile_hd: "dropWhile P xs \<noteq> [] \<Longrightarrow> \<not> P (hd (dropWhile P xs))"
  by (simp add: hd_dropWhile)

lemma sub_ws_no_run: "no_ws_run (sub_ws t)"
proof (induction t rule: sub_ws.induct)
  case 1
  then show ?case by simp
next
  case (2 c cs)
  show ?case
  proof (cases "isspace c")
    case True
    have "dropWhile isspace cs = [] \<or> \<not> isspace (hd (sub_ws (dropWhile isspace cs)))"
      using dropWhile_hd[of isspace cs] sub_ws_hd[of "dropWhile isspace cs"] by blast
    with True 2 show ?thesis by (simp add: no_ws_run_Cons sub_ws_Nil_iff)
  next
    case False
    with 2 show ?thesis by (simp add: no_ws_run_Cons)
  qed
qed

lemma rstrip_prefix: "xs = rev (dropWhile P (rev xs)) @ rev (takeWhile P (rev xs))"
proof -
  have "xs = rev (takeWhile P (rev xs) @ dropWhile P (rev xs))"
    by (simp only: takeWhile_dropWhile_id rev_rev_ident)
  also have "\<dots> = rev (dropWhile P (rev xs)) @ rev (takeWhile P (rev xs))"
    by (simp only: rev_append)
  finally show ?thesis .
qed

lemma strip_decomp: "\<exists>pre suf. t = pre @ strip t @ suf"
proof -
  have a: "t = takeWhile isspace t @ dropWhile isspace t" by simp
  have b: "dropWhile isspace t = strip t @ rev (takeWhile isspace (rev (dropWhile isspace t)))"
    unfolding strip_def by (rule rstrip_prefix)
  from a b have "t = takeWhile isspace t @ strip t @ rev (takeWhile isspace (rev (dropWhile isspace t)))"
    by metis
  then show ?thesis by blast
qed

lemma last_dropWhile: "dropWhile P xs \<noteq> [] \<Longrightarrow> last (dropWhile P xs) = last xs"
  by (induction xs) (auto split: if_splits)

lemma strip_ends:
  assumes "strip t \<noteq> []"
  shows "\<not> isspace (hd (strip t)) \<and> \<not> isspace (last (strip t))"
proof -
  let ?v = "dropWhile isspace t"
  let ?X = "dropWhile isspace (rev ?v)"
  from assms have X: "?X \<noteq> []" unfolding strip_def rev_is_Nil_conv .
  have v: "?v \<noteq> []"
  proof
    assume e: "?v = []"
    have "?X = []" unfolding e by simp
    with X show False by blast
  qed
  have "last (strip t) = hd ?X" unfolding strip_def by (rule last_rev)
  moreover have "\<not> isspace (hd ?X)" using X by (rule dropWhile_hd)
  moreover have "hd (strip t) = last ?X" unfolding strip_def by (rule hd_rev)
  moreover have "last ?X = last (rev ?v)" using X by (rule last_dropWhile)
  moreover have "last (rev ?v) = hd ?v" by (rule last_rev)
  moreover have "\<not> isspace (hd ?v)" using v by (rule dropWhile_hd)
  ultimately show ?thesis by simp
qed

lemma clean_bibitem_text_normalized: "normalized (clean_bibitem_text t)"
proof -
  obtain pre suf where d: "sub_ws t = pre @ strip (sub_ws t) @ suf"
    using strip_decomp by blast
  have "list_all (\<lambda>c. isspace c \<longrightarrow> c = CHR '' '') (pre @ strip (sub_ws t) @ suf)"
    using sub_ws_only_spaces[of t] d by simp
  then have a: "list_all (\<lambda>c. isspace c \<longrightarrow> c = CHR '' '') (strip (sub_ws t))" by simp
  have "no_ws_run (pre @ strip (sub_ws t) @ suf)" using sub_ws_no_run[of t] d by simp
  then have b: "no_ws_run (strip (sub_ws t))" using no_ws_run_append by blast
  show ?thesis unfolding normalized_def clean_bibitem_text_def
    using a b strip_ends[of "sub_ws t"] by simp
qed

lemma sub_ws_keeps_text: "filter (\<lambda>c. \<not> isspace c) (sub_ws t) = filter (\<lambda>c. \<not> isspace c) t"
proof (induction t rule: sub_ws.induct)
  case 1
  then show ?case by simp
next
  case (2 c cs)
  have f: "filter (\<lambda>c. \<not> isspace c) (dropWhile isspace cs) = filter (\<lambda>c. \<not> isspace c) cs"
    by (induction cs) simp_all
  have sp: "isspace (CHR '' '')" by (simp add: isspace_def)
  show ?case using 2 f sp by (cases "isspace c") simp_all
qed

section \<open>The extractor as a state machine\<close>

lemma finalize_label [simp]: "current_bibitem_label (finalize_bibitem s) = None"
  by (simp add: finalize_bibitem_def Let_def split: option.splits)

lemma finalize_text [simp]: "bibitem_text (finalize_bibitem s) = ''''"
  by (simp add: finalize_bibitem_def Let_def split: option.splits)

lemma finalize_nodes [simp]: "nodes_scanned (finalize_bibitem s) = nodes_scanned s"
  by (simp add: finalize_bibitem_def Let_def split: option.splits)

lemma finalize_bibitems:
  "bibitems (finalize_bibitem s) =
     bibitems s @
     (case current_bibitem_label s of None \<Rightarrow> []
      | Some l \<Rightarrow> [\<lparr>key = l, text = clean_bibitem_text (bibitem_text s)\<rparr>])"
  by (simp add: finalize_bibitem_def Let_def split: option.splits)

lemma finalize_nodes_upd:
  "finalize_bibitem (s\<lparr>nodes_scanned := N\<rparr>) = (finalize_bibitem s)\<lparr>nodes_scanned := N\<rparr>"
  by (simp add: finalize_bibitem_def Let_def split: option.splits)

lemma process_content_nodes_upd:
  "process_content (s\<lparr>nodes_scanned := N\<rparr>) c = (process_content s c)\<lparr>nodes_scanned := N\<rparr>"
  by (simp add: process_content_def finalize_bibitem_def Let_def split: option.splits)

lemma process_contents_nodes_upd:
  "process_contents (s\<lparr>nodes_scanned := N\<rparr>) cs = (process_contents s cs)\<lparr>nodes_scanned := N\<rparr>"
  by (induction cs arbitrary: s) (simp_all add: process_content_nodes_upd)

lemma process_content_nodes [simp]: "nodes_scanned (process_content s c) = nodes_scanned s"
  by (simp add: process_content_def Let_def split: option.splits)

lemma process_contents_nodes [simp]: "nodes_scanned (process_contents s cs) = nodes_scanned s"
  by (induction cs arbitrary: s) simp_all

lemma process_contents_append:
  "process_contents s (xs @ ys) = process_contents (process_contents s xs) ys"
  by (induction xs arbitrary: s) simp_all

lemma scan_found_eq:
  "scan_found s soup =
     (process_contents s (concat (map contents (unscanned_parents (nodes_scanned s) soup))))
       \<lparr>nodes_scanned := nodes_scanned s \<union> parent ` set soup\<rparr>"
proof (induction soup arbitrary: s)
  case Nil
  then show ?case by simp
next
  case (Cons b rest)
  show ?case
  proof (cases "parent b \<in> nodes_scanned s")
    case True
    then have "insert (parent b) (nodes_scanned s \<union> parent ` set rest) = nodes_scanned s \<union> parent ` set rest"
      by blast
    with True Cons show ?thesis by simp
  next
    case False
    then show ?thesis
      by (simp add: Cons process_contents_append process_contents_nodes_upd)
  qed
qed

lemma extract_bibitems_eq:
  "extract_bibitems TexSoup tex =
     (case parse_tex TexSoup tex of
        Inl e \<Rightarrow> Inl e
      | Inr soup \<Rightarrow>
          Inr (bibitems (finalize_bibitem
                 (process_contents BibitemExtractor_init (scanned_contents soup)))))"
  by (simp add: extract_bibitems_def extract_def Let_def scan_found_eq scanned_contents_def
        finalize_nodes_upd BibitemExtractor_init_def split: sum.splits)

subsection \<open>Keys\<close>

lemma process_content_keys:
  "map key (bibitems (process_content s c)) @ open_labels (process_content s c) =
     map key (bibitems s) @ open_labels s @ marker_labels [c]"
  by (simp add: process_content_def open_labels_def finalize_bibitems Let_def
        split: option.splits)

lemma process_contents_keys:
  "map key (bibitems (process_contents s cs)) @ open_labels (process_contents s cs) =
     map key (bibitems s) @ open_labels s @ marker_labels cs"
proof (induction cs arbitrary: s)
  case Nil
  then show ?case by simp
next
  case (Cons c cs)
  have m: "marker_labels (c # cs) = marker_labels [c] @ marker_labels cs"
    by (simp split: option.splits)
  have "map key (bibitems (process_contents s (c # cs))) @ open_labels (process_contents s (c # cs))
      = (map key (bibitems (process_content s c)) @ open_labels (process_content s c)) @ marker_labels cs"
    using Cons[of "process_content s c"] by simp
  also have "\<dots> = (map key (bibitems s) @ open_labels s @ marker_labels [c]) @ marker_labels cs"
    by (simp only: process_content_keys)
  finally show ?case using m by simp
qed

lemma finalize_keys:
  "map key (bibitems (finalize_bibitem s)) = map key (bibitems s) @ open_labels s"
  by (simp add: finalize_bibitems open_labels_def split: option.splits)

lemma run_keys:
  "map key (bibitems (finalize_bibitem (process_contents BibitemExtractor_init cs))) =
     marker_labels cs"
  using process_contents_keys[of BibitemExtractor_init cs]
  by (simp add: finalize_keys BibitemExtractor_init_def open_labels_def)

subsection \<open>Texts\<close>

lemma finalize_texts:
  "list_all (\<lambda>b. normalized (text b)) (bibitems s) \<Longrightarrow>
   list_all (\<lambda>b. normalized (text b)) (bibitems (finalize_bibitem s))"
  by (simp add: finalize_bibitems clean_bibitem_text_normalized split: option.splits)

lemma process_content_texts:
  "list_all (\<lambda>b. normalized (text b)) (bibitems s) \<Longrightarrow>
   list_all (\<lambda>b. normalized (text b)) (bibitems (process_content s c))"
  by (simp add: process_content_def finalize_bibitems clean_bibitem_text_normalized Let_def
        split: option.splits)

lemma process_contents_texts:
  "list_all (\<lambda>b. normalized (text b)) (bibitems s) \<Longrightarrow>
   list_all (\<lambda>b. normalized (text b)) (bibitems (process_contents s cs))"
  by (induction cs arbitrary: s) (simp_all add: process_content_texts)

lemma run_texts:
  "list_all (\<lambda>b. normalized (text b))
     (bibitems (finalize_bibitem (process_contents BibitemExtractor_init cs)))"
  by (rule finalize_texts, rule process_contents_texts) (simp add: BibitemExtractor_init_def)

subsection \<open>Idle\<close>

lemma label_upd_same:
  "current_bibitem_label s = l \<Longrightarrow> s\<lparr>current_bibitem_label := l\<rparr> = s"
  by (cases s) simp

lemma process_content_idle:
  "current_bibitem_label s = None \<Longrightarrow> \<not> labelled_marker c \<Longrightarrow> process_content s c = s"
  by (auto simp: process_content_def labelled_marker_def label_upd_same Let_def split: option.splits)

lemma process_contents_idle:
  "current_bibitem_label s = None \<Longrightarrow> \<forall>c \<in> set cs. \<not> labelled_marker c \<Longrightarrow>
   process_contents s cs = s"
  by (induction cs) (simp_all add: process_content_idle)

subsection \<open>Breaks\<close>

lemma before_break_decomp:
  "contains_break t \<Longrightarrow>
     \<exists>rest. t = get_text_before_break t @ rest \<and> TEX_BREAK_at rest"
proof (induction t)
  case Nil
  then show ?case by simp
next
  case (Cons c cs)
  show ?case
  proof (cases "TEX_BREAK_at (c # cs)")
    case True
    then show ?thesis by simp
  next
    case False
    with Cons show ?thesis by auto
  qed
qed

lemma before_break_first:
  "i < length (get_text_before_break t) \<Longrightarrow> \<not> TEX_BREAK_at (drop i t)"
proof (induction t arbitrary: i)
  case Nil
  then show ?case by simp
next
  case (Cons c cs)
  show ?case
  proof (cases "TEX_BREAK_at (c # cs)")
    case True
    with Cons.prems show ?thesis by simp
  next
    case False
    show ?thesis
    proof (cases i)
      case 0
      with False show ?thesis by simp
    next
      case (Suc j)
      from False Cons.prems Suc have "j < length (get_text_before_break cs)"
        by (simp del: TEX_BREAK_at.simps)
      then have "\<not> TEX_BREAK_at (drop j cs)" by (rule Cons.IH)
      with Suc show ?thesis by simp
    qed
  qed
qed

text \<open>The pattern in words: a newline, a run of whitespace, a newline.\<close>

lemma lazy_ws_newline_iff:
  "lazy_ws_newline cs = (\<exists>ws post. cs = ws @ CHR 0x0A # post \<and> list_all isspace ws)"
proof (induction cs)
  case Nil
  then show ?case by simp
next
  case (Cons c cs)
  show ?case
  proof
    assume "lazy_ws_newline (c # cs)"
    then consider "c = CHR 0x0A" | "isspace c" "lazy_ws_newline cs" by auto
    then show "\<exists>ws post. c # cs = ws @ CHR 0x0A # post \<and> list_all isspace ws"
    proof cases
      case 1
      then have "c # cs = [] @ CHR 0x0A # cs \<and> list_all isspace []" by simp
      then show ?thesis by blast
    next
      case 2
      then obtain ws post where "cs = ws @ CHR 0x0A # post" "list_all isspace ws"
        using Cons by blast
      with 2 have "c # cs = (c # ws) @ CHR 0x0A # post \<and> list_all isspace (c # ws)" by simp
      then show ?thesis by blast
    qed
  next
    assume "\<exists>ws post. c # cs = ws @ CHR 0x0A # post \<and> list_all isspace ws"
    then obtain ws post where e: "c # cs = ws @ CHR 0x0A # post" and w: "list_all isspace ws"
      by blast
    show "lazy_ws_newline (c # cs)"
    proof (cases ws)
      case Nil
      with e show ?thesis by simp
    next
      case (Cons d ds)
      with e w have "c = d" "cs = ds @ CHR 0x0A # post" "isspace d" "list_all isspace ds"
        by simp_all
      then show ?thesis using Cons.IH by auto
    qed
  qed
qed

lemma TEX_BREAK_at_iff:
  "TEX_BREAK_at t =
     (\<exists>ws post. t = CHR 0x0A # ws @ CHR 0x0A # post \<and> list_all isspace ws)"
  by (cases t) (auto simp: lazy_ws_newline_iff)

lemma contains_break_iff:
  "contains_break t =
     (\<exists>pre ws post. t = pre @ CHR 0x0A # ws @ CHR 0x0A # post \<and> list_all isspace ws)"
proof (induction t)
  case Nil
  then show ?case by simp
next
  case (Cons c cs)
  show ?case
  proof
    assume "contains_break (c # cs)"
    then consider "TEX_BREAK_at (c # cs)" | "contains_break cs" by auto
    then show "\<exists>pre ws post. c # cs = pre @ CHR 0x0A # ws @ CHR 0x0A # post \<and> list_all isspace ws"
    proof cases
      case 1
      then obtain ws post where "c # cs = [] @ CHR 0x0A # ws @ CHR 0x0A # post" "list_all isspace ws"
        unfolding TEX_BREAK_at_iff by auto
      then show ?thesis by blast
    next
      case 2
      then obtain pre ws post where "cs = pre @ CHR 0x0A # ws @ CHR 0x0A # post" "list_all isspace ws"
        using Cons by blast
      then have "c # cs = (c # pre) @ CHR 0x0A # ws @ CHR 0x0A # post \<and> list_all isspace ws"
        by simp
      then show ?thesis by blast
    qed
  next
    assume "\<exists>pre ws post. c # cs = pre @ CHR 0x0A # ws @ CHR 0x0A # post \<and> list_all isspace ws"
    then obtain pre ws post where e: "c # cs = pre @ CHR 0x0A # ws @ CHR 0x0A # post"
      and w: "list_all isspace ws" by blast
    show "contains_break (c # cs)"
    proof (cases pre)
      case Nil
      with e w have "TEX_BREAK_at (c # cs)" unfolding TEX_BREAK_at_iff by auto
      then show ?thesis by simp
    next
      case (Cons d ds)
      with e have "cs = ds @ CHR 0x0A # ws @ CHR 0x0A # post" by simp
      with w have "contains_break cs" using Cons.IH by blast
      then show ?thesis by simp
    qed
  qed
qed

section \<open>The items extracted\<close>

lemma first_RArg_find: "first_RArg as = map_option arg_value (find is_RArg as)"
  by (induction as rule: first_RArg.induct) simp_all

text \<open>
  C8. At a marker node the label of the new item is the value of the first argument of
  the command that is a required argument (\<open>RArg\<close>); with no required argument the label
  is absent.
\<close>

theorem marker_label_is_first_required_argument:
  "bibitem_cmd content = Some cmd \<Longrightarrow>
     current_bibitem_label (process_content s content) =
       map_option arg_value (find is_RArg (args cmd))"
  by (simp add: process_content_def extract_label_def first_RArg_find Let_def)

theorem marker_label_witness:
  "current_bibitem_label
     (process_content BibitemExtractor_init
        (TexNode (Cmd \<lparr>name = ''bibitem'', args = [OArg ''Kn84'', RArg ''knuth'', RArg ''x'']\<rparr>) None))
     = Some ''knuth''
 \<and> current_bibitem_label
     (process_content BibitemExtractor_init
        (TexNode (Cmd \<lparr>name = ''bibitem'', args = [OArg ''Kn84'']\<rparr>) None))
     = None"
  using marker_label_is_first_required_argument
    [of "TexNode (Cmd \<lparr>name = ''bibitem'', args = [OArg ''Kn84'', RArg ''knuth'', RArg ''x'']\<rparr>) None"
        "\<lparr>name = ''bibitem'', args = [OArg ''Kn84'', RArg ''knuth'', RArg ''x'']\<rparr>"
        BibitemExtractor_init]
    marker_label_is_first_required_argument
    [of "TexNode (Cmd \<lparr>name = ''bibitem'', args = [OArg ''Kn84'']\<rparr>) None"
        "\<lparr>name = ''bibitem'', args = [OArg ''Kn84'']\<rparr>"
        BibitemExtractor_init]
  by simp

lemma isspace_simps [simp]:
  "isspace (CHR '' '')" "isspace (CHR 0x0A)"
  by (simp_all add: isspace_def)

lemma marker_labels_length: "length (marker_labels cs) = length (filter labelled_marker cs)"
  by (induction cs) (simp_all add: labelled_marker_def split: option.splits)

lemma marker_labels_append: "marker_labels (xs @ ys) = marker_labels xs @ marker_labels ys"
  by (induction xs) (simp_all split: option.splits)

lemma unscanned_parents_one_parent:
  "\<forall>b \<in> set soup. parent b = p \<Longrightarrow>
   unscanned_parents seen soup = (if p \<in> seen \<or> soup = [] then [] else [p])"
  by (induction soup arbitrary: seen) auto

lemma scanned_contents_one_parent:
  assumes "soup \<noteq> []" and "\<forall>b \<in> set soup. parent b = p"
  shows "scanned_contents soup = contents p"
proof -
  have "unscanned_parents {} soup = [p]"
    using assms unscanned_parents_one_parent[of soup p "{}"] by simp
  then show ?thesis by (simp add: scanned_contents_def)
qed

text \<open>
  C3 (as amended). A paragraph break is a match of \<open>TEX_BREAK\<close>: a newline, a run of
  whitespace of any kind (possibly empty), a newline. When an item is open and the text
  \<open>t\<close> of a content that is no marker contains a break, then \<open>t\<close> is the part before its
  first break followed by a break; that part alone is appended to the buffer; the item is
  emitted at once, with the cleaned buffer as text, and the extractor is left with no open
  item and an empty buffer; and the contents that follow, up to the next marker that has a
  label, change nothing: the run continues as if they were not there.
\<close>

theorem break_ends_item_and_drops_rest:
  assumes "current_bibitem_label s = Some l"
      and "bibitem_cmd c = None"
      and "content_text c = Some t"
      and "contains_break t"
      and "\<forall>c' \<in> set cs. \<not> labelled_marker c'"
  shows "(\<exists>ws post. t = get_text_before_break t @ CHR 0x0A # ws @ CHR 0x0A # post
                    \<and> list_all isspace ws)
       \<and> (\<forall>i < length (get_text_before_break t). \<not> TEX_BREAK_at (drop i t))
       \<and> process_content s c =
           s\<lparr>current_bibitem_label := None, bibitem_text := '''',
             bibitems := bibitems s @
               [\<lparr>key = l,
                 text = clean_bibitem_text (bibitem_text s @ get_text_before_break t)\<rparr>]\<rparr>
       \<and> process_contents s (c # cs @ later) = process_contents (process_content s c) later"
proof -
  obtain rest where "t = get_text_before_break t @ rest" "TEX_BREAK_at rest"
    using before_break_decomp[OF assms(4)] by blast
  then have a: "\<exists>ws post. t = get_text_before_break t @ CHR 0x0A # ws @ CHR 0x0A # post
                    \<and> list_all isspace ws"
    unfolding TEX_BREAK_at_iff by metis
  have b: "\<forall>i < length (get_text_before_break t). \<not> TEX_BREAK_at (drop i t)"
    using before_break_first by blast
  have c: "process_content s c =
           s\<lparr>current_bibitem_label := None, bibitem_text := '''',
             bibitems := bibitems s @
               [\<lparr>key = l,
                 text = clean_bibitem_text (bibitem_text s @ get_text_before_break t)\<rparr>]\<rparr>"
    using assms(1-4) by (simp add: process_content_def finalize_bibitem_def Let_def)
  have "current_bibitem_label (process_content s c) = None" by (simp add: c)
  then have "process_contents (process_content s c) cs = process_content s c"
    using assms(5) by (rule process_contents_idle)
  then have d: "process_contents s (c # cs @ later) = process_contents (process_content s c) later"
    by (simp add: process_contents_append)
  from a b c d show ?thesis by blast
qed

theorem break_ends_item_witness:
  "process_contents (BibitemExtractor_init\<lparr>current_bibitem_label := Some ''a''\<rparr>)
     [TokenWithPosition stray_text, TokenWithPosition ''more'', bibitem_node [RArg ''b'']]
   = BibitemExtractor_init
       \<lparr>current_bibitem_label := Some ''b'', bibitems := [\<lparr>key = ''a'', text = ''Alpha''\<rparr>]\<rparr>"
  using break_ends_item_and_drops_rest
    [of "BibitemExtractor_init\<lparr>current_bibitem_label := Some ''a''\<rparr>" "''a''"
        "TokenWithPosition stray_text" stray_text "[TokenWithPosition ''more'']"
        "[bibitem_node [RArg ''b'']]"]
  by (simp add: stray_text_def labelled_marker_def BibitemExtractor_init_def bibitem_node_def
        process_content_def extract_label_def clean_bibitem_text_def strip_def isspace_def)

text \<open>
  The text \<^verbatim>\<open>"a\r\n\r\nb\n\nc"\<close> in an open item. Its first break with horizontal
  whitespace only is the \<^verbatim>\<open>"\n\n"\<close> after \<^verbatim>\<open>b\<close>, and the text before it cleans to
  \<^verbatim>\<open>"a b"\<close>. The extractor breaks at the first \<^verbatim>\<open>"\n\r\n"\<close>, since \<^verbatim>\<open>\s\<close> matches
  the carriage return, and emits the item with text \<^verbatim>\<open>"a"\<close>.
\<close>

theorem break_across_carriage_return:
  "spec_contains_break crlf_text
 \<and> spec_text_before_break crlf_text = ''a'' @ [CHR 0x0D, CHR 0x0A, CHR 0x0D, CHR 0x0A] @ ''b''
 \<and> clean_bibitem_text (spec_text_before_break crlf_text) = ''a b''
 \<and> get_text_before_break crlf_text = ''a'' @ [CHR 0x0D]
 \<and> process_content (BibitemExtractor_init\<lparr>current_bibitem_label := Some ''k''\<rparr>)
       (TokenWithPosition crlf_text)
     = BibitemExtractor_init\<lparr>bibitems := [\<lparr>key = ''k'', text = ''a''\<rparr>]\<rparr>"
  by (simp add: crlf_text_def horizontal_space_def isspace_def process_content_def
        finalize_bibitem_def BibitemExtractor_init_def clean_bibitem_text_def strip_def)

text \<open>
  C4. At a marker whose command has no required argument, the current label becomes
  absent; the step adds no item for this marker (the item list is that of closing the
  item that was open, if any); the buffer is not extended; and the contents that follow,
  up to the next marker that has a label, leave the extractor unchanged, so the run is
  the same as without them.
\<close>

theorem unlabelled_marker_drops_following_text:
  assumes "bibitem_cmd c = Some cmd"
      and "find is_RArg (args cmd) = None"
      and "\<forall>c' \<in> set cs. \<not> labelled_marker c'"
  shows "current_bibitem_label (process_content s c) = None
       \<and> bibitems (process_content s c) = bibitems (finalize_bibitem s)
       \<and> bibitem_text (process_content s c) =
           (if current_bibitem_label s = None then bibitem_text s else '''')
       \<and> process_contents (process_content s c) cs = process_content s c
       \<and> process_contents s (c # cs @ later) = process_contents s (c # later)"
proof -
  have l: "extract_label cmd = None" using assms(2) by (simp add: extract_label_def first_RArg_find)
  have a: "current_bibitem_label (process_content s c) = None"
    using assms(1) l by (simp add: process_content_def Let_def)
  have b: "bibitems (process_content s c) = bibitems (finalize_bibitem s)"
    using assms(1) by (simp add: process_content_def Let_def finalize_bibitems split: option.splits)
  have t: "bibitem_text (process_content s c) =
           (if current_bibitem_label s = None then bibitem_text s else '''')"
    using assms(1) by (simp add: process_content_def Let_def)
  have i: "process_contents (process_content s c) cs = process_content s c"
    using a assms(3) by (rule process_contents_idle)
  then have d: "process_contents s (c # cs @ later) = process_contents s (c # later)"
    by (simp add: process_contents_append)
  from a b t i d show ?thesis by blast
qed

theorem unlabelled_marker_witness:
  "process_contents BibitemExtractor_init
     [bibitem_node [OArg ''x''], TokenWithPosition ''lost text'', bibitem_node [RArg ''b'']]
   = BibitemExtractor_init\<lparr>current_bibitem_label := Some ''b''\<rparr>"
  using unlabelled_marker_drops_following_text
    [of "bibitem_node [OArg ''x'']" "\<lparr>name = ''bibitem'', args = [OArg ''x'']\<rparr>"
        "[TokenWithPosition ''lost text'']" BibitemExtractor_init "[bibitem_node [RArg ''b'']]"]
  by (simp add: labelled_marker_def BibitemExtractor_init_def bibitem_node_def
        process_content_def extract_label_def)

lemma process_content_idle_buffer:
  "idle_buffer_empty s \<Longrightarrow> idle_buffer_empty (process_content s c)"
  by (auto simp: idle_buffer_empty_def process_content_def Let_def split: option.splits)

lemma process_contents_idle_buffer:
  "idle_buffer_empty s \<Longrightarrow> idle_buffer_empty (process_contents s cs)"
  by (induction cs arbitrary: s) (simp_all add: process_content_idle_buffer)

lemma process_content_grows: "\<exists>ys. bibitems (process_content s c) = bibitems s @ ys"
  by (simp add: process_content_def finalize_bibitems Let_def split: option.splits)

lemma process_contents_grows: "\<exists>ys. bibitems (process_contents s cs) = bibitems s @ ys"
proof (induction cs arbitrary: s)
  case Nil
  then show ?case by simp
next
  case (Cons c cs)
  obtain ys where a: "bibitems (process_content s c) = bibitems s @ ys"
    using process_content_grows by blast
  obtain zs where "bibitems (process_contents (process_content s c) cs) =
      bibitems (process_content s c) @ zs"
    using Cons by blast
  with a show ?case by simp
qed

lemma clean_empty: "clean_bibitem_text '''' = ''''"
  by (simp add: clean_bibitem_text_def strip_def)

lemma two_markers_step:
  assumes "idle_buffer_empty s"
      and "bibitem_cmd m1 = Some cmd1" and "extract_label cmd1 = Some l"
      and "bibitem_cmd m2 = Some cmd2"
  shows "bibitems (process_content (process_content s m1) m2) =
           bibitems (finalize_bibitem s) @ [\<lparr>key = l, text = ''''\<rparr>]"
proof -
  let ?s1 = "process_content s m1"
  have l1: "current_bibitem_label ?s1 = Some l"
    using assms(2,3) by (simp add: process_content_def Let_def)
  have t1: "bibitem_text ?s1 = ''''"
    using assms(1,2) by (auto simp: process_content_def Let_def idle_buffer_empty_def)
  have b1: "bibitems ?s1 = bibitems (finalize_bibitem s)"
    using assms(2) by (simp add: process_content_def Let_def finalize_bibitems split: option.splits)
  have "bibitems (process_content ?s1 m2) = bibitems (finalize_bibitem ?s1)"
    using assms(4) l1 by (simp add: process_content_def Let_def)
  then show ?thesis using l1 t1 b1 by (simp add: finalize_bibitems clean_empty)
qed

lemma process_content_skip:
  "bibitem_cmd c = None \<Longrightarrow> content_text c = None \<Longrightarrow> process_content s c = s"
  by (simp add: process_content_def split: option.splits)

lemma process_contents_skip:
  "\<forall>c \<in> set cs. bibitem_cmd c = None \<and> content_text c = None \<Longrightarrow>
   process_contents s cs = s"
  by (induction cs) (simp_all add: process_content_skip)

lemma marker_then_marker_step:
  assumes "idle_buffer_empty s"
      and "bibitem_cmd m1 = Some cmd1" and "extract_label cmd1 = Some l"
      and "\<forall>c \<in> set gap. bibitem_cmd c = None \<and> content_text c = None"
      and "bibitem_cmd m2 = Some cmd2"
  shows "bibitems (process_contents s (m1 # gap @ [m2])) =
           bibitems (finalize_bibitem s) @ [\<lparr>key = l, text = ''''\<rparr>]"
proof -
  have "process_contents s (m1 # gap @ [m2]) =
      process_content (process_contents (process_content s m1) gap) m2"
    by (simp add: process_contents_append)
  also have "\<dots> = process_content (process_content s m1) m2"
    using assms(4) by (simp add: process_contents_skip)
  finally show ?thesis using two_markers_step[OF assms(1,2,3,5)] by simp
qed

text \<open>
  C9. When the TeX parses and, in the contents walked, a marker with a label \<open>l\<close> is
  followed by another marker with nothing between them but contents that have no text,
  the output holds an item with key \<open>l\<close> and empty text, placed after the items of the
  markers before it.
\<close>

theorem marker_followed_by_marker_gives_empty_text:
  assumes "TexSoup tex = Inr soup"
      and "scanned_contents soup = pre @ m1 # gap @ m2 # later"
      and "bibitem_cmd m1 = Some cmd1" and "extract_label cmd1 = Some l"
      and "\<forall>c \<in> set gap. bibitem_cmd c = None \<and> content_text c = None"
      and "bibitem_cmd m2 = Some cmd2"
  shows "\<exists>before after.
           extract_bibitems TexSoup tex = Inr (before @ \<lparr>key = l, text = ''''\<rparr> # after)
         \<and> map key before = marker_labels pre"
proof -
  let ?s = "process_contents BibitemExtractor_init pre"
  let ?s2 = "process_contents ?s (m1 # gap @ [m2])"
  have inv: "idle_buffer_empty ?s"
    by (rule process_contents_idle_buffer) (simp add: idle_buffer_empty_def BibitemExtractor_init_def)
  have b2: "bibitems ?s2 = bibitems (finalize_bibitem ?s) @ [\<lparr>key = l, text = ''''\<rparr>]"
    using inv assms(3-6) by (rule marker_then_marker_step)
  obtain ys where g: "bibitems (process_contents ?s2 later) = bibitems ?s2 @ ys"
    using process_contents_grows by blast
  obtain zs where f: "bibitems (finalize_bibitem (process_contents ?s2 later)) =
      bibitems (process_contents ?s2 later) @ zs"
    by (simp add: finalize_bibitems)
  have "pre @ m1 # gap @ m2 # later = pre @ (m1 # gap @ [m2]) @ later" by simp
  then have run: "process_contents BibitemExtractor_init (scanned_contents soup) =
      process_contents ?s2 later"
    unfolding assms(2) by (simp only: process_contents_append)
  have p: "parse_tex TexSoup tex = Inr soup" using assms(1) by (simp add: parse_tex_def)
  have "extract_bibitems TexSoup tex =
      Inr (bibitems (finalize_bibitem (process_contents ?s2 later)))"
    by (simp only: extract_bibitems_eq p run sum.case)
  also have "bibitems (finalize_bibitem (process_contents ?s2 later)) =
      bibitems (finalize_bibitem ?s) @ \<lparr>key = l, text = ''''\<rparr> # (ys @ zs)"
    by (simp only: f g b2 append_assoc append_Cons append_Nil)
  finally have e: "extract_bibitems TexSoup tex =
      Inr (bibitems (finalize_bibitem ?s) @ \<lparr>key = l, text = ''''\<rparr> # (ys @ zs))" .
  have k: "map key (bibitems (finalize_bibitem ?s)) = marker_labels pre" by (rule run_keys)
  from e k show ?thesis by blast
qed

theorem marker_followed_by_marker_witness:
  "\<exists>before after.
     extract_bibitems (TexSoup_returning [FoundNode empty_entry_block]) ''x'' =
       Inr (before @ \<lparr>key = ''a'', text = ''''\<rparr> # after)
   \<and> map key before = []"
  using marker_followed_by_marker_gives_empty_text
    [of "TexSoup_returning [FoundNode empty_entry_block]" "''x''" "[FoundNode empty_entry_block]"
        "[]" "bibitem_node [RArg ''a'']" "[OtherContent]" "bibitem_node [RArg ''b'']" "[TokenWithPosition ''Beta'']"
        "\<lparr>name = ''bibitem'', args = [RArg ''a'']\<rparr>" "''a''"
        "\<lparr>name = ''bibitem'', args = [RArg ''b'']\<rparr>"]
  by (simp add: TexSoup_returning_def scanned_contents_def empty_entry_block_def bibitem_node_def
        extract_label_def)

lemma empty_entry_output:
  "extract_bibitems (TexSoup_returning [FoundNode empty_entry_block]) ''x'' =
     Inr [\<lparr>key = ''a'', text = ''''\<rparr>, \<lparr>key = ''b'', text = ''Beta''\<rparr>]"
  by (simp add: extract_bibitems_def extract_def parse_tex_def TexSoup_returning_def
        empty_entry_block_def BibitemExtractor_init_def bibitem_node_def process_content_def
        finalize_bibitem_def extract_label_def clean_bibitem_text_def strip_def isspace_def Let_def)

subsection \<open>Words\<close>

lemma split_acc_dropWhile: "split_acc [] (dropWhile isspace cs) = split_acc [] cs"
  by (induction cs) simp_all

lemma split_acc_space: "isspace c \<Longrightarrow> split_acc w (c # cs) = split_acc w (CHR '' '' # cs)"
  by simp

lemma split_acc_sub_ws: "split_acc w (sub_ws t) = split_acc w t"
proof (induction t arbitrary: w rule: sub_ws.induct)
  case 1
  then show ?case by simp
next
  case (2 c cs)
  show ?case
  proof (cases "isspace c")
    case True
    have "split_acc [] (sub_ws (dropWhile isspace cs)) = split_acc [] cs"
      using 2(1)[OF True, of "[]"] by (simp add: split_acc_dropWhile)
    with True show ?thesis by simp
  next
    case False
    with 2(2)[OF False, of "w @ [c]"] show ?thesis by simp
  qed
qed

lemma split_acc_trailing:
  "list_all isspace ys \<Longrightarrow> split_acc w (xs @ ys) = split_acc w xs"
proof (induction xs arbitrary: w)
  case Nil
  then show ?case by (induction ys arbitrary: w) auto
next
  case (Cons x xs)
  then show ?case by simp
qed

lemma ws_words_strip: "ws_words (strip t) = ws_words t"
proof -
  let ?v = "dropWhile isspace t"
  have "?v = strip t @ rev (takeWhile isspace (rev ?v))"
    unfolding strip_def by (rule rstrip_prefix)
  moreover have "list_all isspace (rev (takeWhile isspace (rev ?v)))"
    by (simp add: list_all_iff) (metis set_takeWhileD)
  ultimately have "split_acc [] ?v = split_acc [] (strip t)"
    using split_acc_trailing by metis
  then show ?thesis by (simp add: ws_words_def split_acc_dropWhile)
qed

lemma ws_words_clean: "ws_words (clean_bibitem_text t) = ws_words t"
  by (simp add: clean_bibitem_text_def ws_words_strip) (simp add: ws_words_def split_acc_sub_ws)

lemma split_acc_Nil: "split_acc w cs = [] \<Longrightarrow> w = [] \<and> list_all isspace cs"
  by (induction cs arbitrary: w) (auto split: if_splits)

lemma join_words_Cons: "xs \<noteq> [] \<Longrightarrow> join_words (w # xs) = w @ CHR '' '' # join_words xs"
  by (cases xs) simp_all

lemma join_split_acc:
  assumes "list_all (\<lambda>c. isspace c \<longrightarrow> c = CHR '' '') u"
      and "no_ws_run u"
      and "u \<noteq> [] \<longrightarrow> \<not> isspace (last u)"
      and "w \<noteq> [] \<or> u = [] \<or> \<not> isspace (hd u)"
  shows "join_words (split_acc w u) = w @ u"
  using assms
proof (induction u arbitrary: w)
  case Nil
  then show ?case by simp
next
  case (Cons c cs)
  show ?case
  proof (cases "isspace c")
    case True
    with Cons.prems have c: "c = CHR '' ''" and w: "w \<noteq> []" by auto
    from True Cons.prems(3) have ne: "cs \<noteq> []" by auto
    with True Cons.prems(2) have h: "\<not> isspace (hd cs)" by (simp add: no_ws_run_Cons)
    have "list_all (\<lambda>c. isspace c \<longrightarrow> c = CHR '' '') cs" "no_ws_run cs"
         "cs \<noteq> [] \<longrightarrow> \<not> isspace (last cs)"
      using Cons.prems ne by (simp_all add: no_ws_run_Cons)
    then have j: "join_words (split_acc [] cs) = cs" using Cons.IH[of "[]"] h by simp
    have "split_acc [] cs \<noteq> []"
    proof
      assume "split_acc [] cs = []"
      then have "list_all isspace cs" using split_acc_Nil by blast
      with ne h show False by (cases cs) simp_all
    qed
    then have "join_words (w # split_acc [] cs) = w @ CHR '' '' # join_words (split_acc [] cs)"
      by (rule join_words_Cons)
    with True w c j show ?thesis by simp
  next
    case False
    have "list_all (\<lambda>c. isspace c \<longrightarrow> c = CHR '' '') cs" "no_ws_run cs"
         "cs \<noteq> [] \<longrightarrow> \<not> isspace (last cs)"
      using Cons.prems by (simp_all add: no_ws_run_Cons split: if_splits)
    then have "join_words (split_acc (w @ [c]) cs) = (w @ [c]) @ cs"
      using Cons.IH[of "w @ [c]"] by simp
    with False show ?thesis by simp
  qed
qed

lemma normalized_join_words: "normalized u \<Longrightarrow> join_words (ws_words u) = u"
  using join_split_acc[of u "[]"] by (auto simp: normalized_def ws_words_def)

lemma clean_bibitem_text_eq: "clean_bibitem_text t = join_words (ws_words t)"
proof -
  have "join_words (ws_words (clean_bibitem_text t)) = clean_bibitem_text t"
    using clean_bibitem_text_normalized by (rule normalized_join_words)
  then show ?thesis by (simp add: ws_words_clean)
qed

subsection \<open>The items of a run\<close>

lemma bibitem_cmd_is_marker: "(bibitem_cmd c = None) = (\<not> is_marker c)"
  by (cases c rule: is_marker.cases) simp_all

lemma bibitem_cmd_label: "bibitem_cmd c = Some cmd \<Longrightarrow> extract_label cmd = marker_label c"
  by (cases c rule: is_marker.cases) (auto simp: extract_label_def first_RArg_find split: if_splits)

lemma content_text_plain: "content_text c = plain_text c"
  by (cases c rule: content_text.cases) simp_all

lemma run_items:
  "idle_buffer_empty s \<Longrightarrow>
   bibitems (finalize_bibitem (process_contents s cs)) =
     bibitems s @
     (case current_bibitem_label s of
        Some l \<Rightarrow> [cleaned_item (l, bibitem_text s @ item_body cs)]
      | None \<Rightarrow> []) @
     map cleaned_item (raw_items cs)"
proof (induction cs arbitrary: s)
  case Nil
  then show ?case
    by (simp add: finalize_bibitems cleaned_item_def clean_bibitem_text_eq split: option.splits)
next
  case (Cons c cs)
  let ?s1 = "process_content s c"
  have inv: "idle_buffer_empty ?s1" using Cons.prems by (rule process_content_idle_buffer)
  have ih: "bibitems (finalize_bibitem (process_contents ?s1 cs)) =
     bibitems ?s1 @
     (case current_bibitem_label ?s1 of
        Some l \<Rightarrow> [cleaned_item (l, bibitem_text ?s1 @ item_body cs)]
      | None \<Rightarrow> []) @
     map cleaned_item (raw_items cs)"
    using inv by (rule Cons.IH)
  show ?case
  proof (cases "bibitem_cmd c")
    case (Some cmd)
    then have m: "is_marker c" using bibitem_cmd_is_marker[of c] by simp
    have l: "extract_label cmd = marker_label c" using Some by (rule bibitem_cmd_label)
    have a: "current_bibitem_label ?s1 = marker_label c"
      using Some l by (simp add: process_content_def Let_def)
    have b: "bibitem_text ?s1 = ''''"
      using Some Cons.prems by (auto simp: process_content_def Let_def idle_buffer_empty_def)
    have c: "bibitems ?s1 = bibitems s @
       (case current_bibitem_label s of
          Some l \<Rightarrow> [cleaned_item (l, bibitem_text s)] | None \<Rightarrow> [])"
      using Some by (auto simp: process_content_def Let_def finalize_bibitems cleaned_item_def
          clean_bibitem_text_eq split: option.splits)
    show ?thesis using ih m a b c by (simp split: option.splits)
  next
    case None
    then have m: "\<not> is_marker c" using bibitem_cmd_is_marker[of c] by simp
    show ?thesis
    proof (cases "current_bibitem_label s")
      case lNone: None
      then have "?s1 = s" using None by (simp add: process_content_def)
      with ih lNone m show ?thesis by simp
    next
      case (Some l)
      show ?thesis
      proof (cases "plain_text c")
        case tNone: None
        then have "?s1 = s" using None Some by (simp add: process_content_def content_text_plain)
        with ih Some m tNone show ?thesis by simp
      next
        case (Some t)
        note t = this
        show ?thesis
        proof (cases "contains_break t")
          case True
          have "?s1 = finalize_bibitem (s\<lparr>bibitem_text := bibitem_text s @ get_text_before_break t\<rparr>)"
            using None \<open>current_bibitem_label s = Some l\<close> t True
            by (simp add: process_content_def content_text_plain)
          then have "current_bibitem_label ?s1 = None"
            "bibitems ?s1 = bibitems s @ [cleaned_item (l, bibitem_text s @ get_text_before_break t)]"
            using \<open>current_bibitem_label s = Some l\<close>
            by (simp_all add: finalize_bibitems cleaned_item_def clean_bibitem_text_eq)
          with ih m t True \<open>current_bibitem_label s = Some l\<close> show ?thesis by simp
        next
          case False
          have "?s1 = s\<lparr>bibitem_text := bibitem_text s @ t\<rparr>"
            using None \<open>current_bibitem_label s = Some l\<close> t False
            by (simp add: process_content_def content_text_plain)
          with ih m t False \<open>current_bibitem_label s = Some l\<close> show ?thesis by simp
        qed
      qed
    qed
  qed
qed

lemma run_items_init:
  "bibitems (finalize_bibitem (process_contents BibitemExtractor_init cs)) =
     map cleaned_item (raw_items cs)"
  using run_items[of BibitemExtractor_init cs]
  by (simp add: idle_buffer_empty_def BibitemExtractor_init_def)

lemma nested_found:
  "find_all_bibitem nested_tree =
     [FoundNode outer_parent, FoundNode inner_parent, FoundNode outer_parent]"
  by (simp add: nested_tree_def nested_outer_def nested_inner_def outer_parent_def
        inner_parent_def bibitem_node_def)

text \<open>
  C2 (as amended). When the TeX parses, \<open>extract_bibitems\<close> returns one item per marker
  that has a label. The items are those of \<open>raw_items\<close> on the contents the extractor
  walks: the parents of the markers one after the other, in the order in which they are
  first found, and the contents of each parent in their order. So the items of one
  parent are in document order, and when all markers found have the same parent \<open>p\<close> the
  whole output is in the order of the contents of \<open>p\<close>. The text of every item is its
  body with every run of whitespace turned into one space and none at either end: the
  words of the body joined by single spaces.
\<close>

theorem extract_one_bibitem_per_labelled_marker:
  assumes "TexSoup tex = Inr soup"
  shows "\<exists>items. extract_bibitems TexSoup tex = Inr items
           \<and> items = map (\<lambda>(l, raw). \<lparr>key = l, text = join_words (ws_words raw)\<rparr>)
                        (raw_items (scanned_contents soup))
           \<and> map key items = marker_labels (scanned_contents soup)
           \<and> length items = length (filter labelled_marker (scanned_contents soup))
           \<and> list_all (\<lambda>b. normalized (text b)) items
           \<and> (soup \<noteq> [] \<and> (\<forall>b \<in> set soup. parent b = p) \<longrightarrow>
                map key items = marker_labels (contents p))"
proof -
  let ?items = "bibitems (finalize_bibitem
                   (process_contents BibitemExtractor_init (scanned_contents soup)))"
  have p: "parse_tex TexSoup tex = Inr soup" using assms by (simp add: parse_tex_def)
  have e: "extract_bibitems TexSoup tex = Inr ?items" by (simp add: extract_bibitems_eq p)
  have c: "cleaned_item = (\<lambda>(l, raw). \<lparr>key = l, text = join_words (ws_words raw)\<rparr>)"
    by (rule ext) (simp add: cleaned_item_def split: prod.splits)
  have r: "?items = map (\<lambda>(l, raw). \<lparr>key = l, text = join_words (ws_words raw)\<rparr>)
                        (raw_items (scanned_contents soup))"
    unfolding c[symmetric] by (rule run_items_init)
  have k: "map key ?items = marker_labels (scanned_contents soup)" by (rule run_keys)
  have "length (map key ?items) = length (marker_labels (scanned_contents soup))"
    by (simp only: k)
  then have n: "length ?items = length (filter labelled_marker (scanned_contents soup))"
    by (simp add: marker_labels_length)
  have t: "list_all (\<lambda>b. normalized (text b)) ?items" by (rule run_texts)
  have o: "soup \<noteq> [] \<and> (\<forall>b \<in> set soup. parent b = p) \<longrightarrow>
      map key ?items = marker_labels (contents p)"
  proof
    assume "soup \<noteq> [] \<and> (\<forall>b \<in> set soup. parent b = p)"
    then have "scanned_contents soup = contents p"
      using scanned_contents_one_parent[of soup p] by blast
    then have "marker_labels (scanned_contents soup) = marker_labels (contents p)"
      by (simp only:)
    with k show "map key ?items = marker_labels (contents p)" by (simp only:)
  qed
  from e r k n t o show ?thesis by blast
qed

theorem extract_one_bibitem_per_labelled_marker_witness:
  "TexSoup_returning [FoundNode alpha_beta_block, FoundNode alpha_beta_block] ''x'' =
     Inr [FoundNode alpha_beta_block, FoundNode alpha_beta_block]
 \<and> extract_bibitems
       (TexSoup_returning [FoundNode alpha_beta_block, FoundNode alpha_beta_block]) ''x'' =
     Inr [\<lparr>key = ''a'', text = ''Alpha text.''\<rparr>, \<lparr>key = ''b'', text = ''Beta text.''\<rparr>]"
  using extract_one_bibitem_per_labelled_marker
    [of "TexSoup_returning [FoundNode alpha_beta_block, FoundNode alpha_beta_block]" "''x''"
        "[FoundNode alpha_beta_block, FoundNode alpha_beta_block]" alpha_beta_block]
  by (auto simp: TexSoup_returning_def scanned_contents_def alpha_beta_block_def bibitem_node_def
        ws_words_def isspace_def)

text \<open>
  A marker \<^verbatim>\<open>b\<close> inside an environment between the markers \<^verbatim>\<open>a\<close> and \<^verbatim>\<open>c\<close> of the
  enclosing block. In the document the labels come in the order \<^verbatim>\<open>a, b, c\<close>. The
  extractor walks all contents of the outer parent when it meets it first, so the items
  come out in the order \<^verbatim>\<open>a, c, b\<close>, whether the search yields the markers in document
  order or those of the outer parent first.
\<close>

theorem nested_marker_out_of_document_order:
  "document_labels nested_tree = [''a'', ''b'', ''c'']
 \<and> find_all_bibitem nested_tree =
     [FoundNode outer_parent, FoundNode inner_parent, FoundNode outer_parent]
 \<and> extract_bibitems (TexSoup_returning (find_all_bibitem nested_tree)) ''x'' =
     Inr [\<lparr>key = ''a'', text = ''A''\<rparr>, \<lparr>key = ''c'', text = ''C''\<rparr>, \<lparr>key = ''b'', text = ''B''\<rparr>]
 \<and> extract_bibitems
       (TexSoup_returning [FoundNode outer_parent, FoundNode outer_parent, FoundNode inner_parent])
       ''x'' =
     Inr [\<lparr>key = ''a'', text = ''A''\<rparr>, \<lparr>key = ''c'', text = ''C''\<rparr>, \<lparr>key = ''b'', text = ''B''\<rparr>]"
proof -
  have d: "document_labels nested_tree = [''a'', ''b'', ''c'']"
    by (simp add: nested_tree_def nested_outer_def nested_inner_def bibitem_node_def own_label_def)
  have o: "contents outer_parent =
      [bibitem_node [RArg ''a''], TokenWithPosition '' A '', TexNode OtherExpr None,
       bibitem_node [RArg ''c''], TokenWithPosition '' C '']"
    by (simp add: outer_parent_def nested_outer_def)
  have i: "contents inner_parent = [bibitem_node [RArg ''b''], TokenWithPosition '' B '']"
    by (simp add: inner_parent_def nested_inner_def)
  have ne: "inner_parent \<noteq> outer_parent" by (simp add: inner_parent_def outer_parent_def)
  have r1: "extract_bibitems
       (TexSoup_returning [FoundNode outer_parent, FoundNode inner_parent, FoundNode outer_parent])
       ''x'' =
     Inr [\<lparr>key = ''a'', text = ''A''\<rparr>, \<lparr>key = ''c'', text = ''C''\<rparr>, \<lparr>key = ''b'', text = ''B''\<rparr>]"
    using ne by (simp add: extract_bibitems_def extract_def parse_tex_def TexSoup_returning_def
        BibitemExtractor_init_def o i bibitem_node_def process_content_def finalize_bibitem_def
        extract_label_def clean_bibitem_text_def strip_def isspace_def Let_def)
  have r2: "extract_bibitems
       (TexSoup_returning [FoundNode outer_parent, FoundNode outer_parent, FoundNode inner_parent])
       ''x'' =
     Inr [\<lparr>key = ''a'', text = ''A''\<rparr>, \<lparr>key = ''c'', text = ''C''\<rparr>, \<lparr>key = ''b'', text = ''B''\<rparr>]"
    using ne by (simp add: extract_bibitems_def extract_def parse_tex_def TexSoup_returning_def
        BibitemExtractor_init_def o i bibitem_node_def process_content_def finalize_bibitem_def
        extract_label_def clean_bibitem_text_def strip_def isspace_def Let_def)
  show ?thesis using d nested_found r1 r2 by simp
qed

lemma alpha_beta_output:
  "extract_bibitems
     (TexSoup_returning [FoundNode alpha_beta_block, FoundNode alpha_beta_block]) ''x''
   = Inr [\<lparr>key = ''a'', text = ''Alpha text.''\<rparr>, \<lparr>key = ''b'', text = ''Beta text.''\<rparr>]"
  by (simp add: extract_bibitems_def extract_def parse_tex_def TexSoup_returning_def
        alpha_beta_block_def BibitemExtractor_init_def bibitem_node_def process_content_def finalize_bibitem_def
        extract_label_def clean_bibitem_text_def strip_def isspace_def Let_def)

section \<open>Calls do not share state\<close>

text \<open>
  C6. A call of \<open>extract_bibitems\<close> gives the same output whatever extractor objects
  earlier calls left in the store, so a second call on the same text gives the output of
  the first, and the call leaves those objects as they were. The join block gives the
  same list whatever its local variables held before, so a second run on the same
  entities and locations gives the list of the first.
\<close>

theorem repeated_calls_give_identical_output:
  "fst (extract_bibitems_in TexSoup store tex) = extract_bibitems TexSoup tex
 \<and> fst (extract_bibitems_in TexSoup (snd (extract_bibitems_in TexSoup store tex)) tex) =
     fst (extract_bibitems_in TexSoup store tex)
 \<and> take (length store) (snd (extract_bibitems_in TexSoup store tex)) = store
 \<and> localized_enitites (join_block st es hs) = join es hs
 \<and> localized_enitites (join_block (join_block st es hs) es hs) =
     localized_enitites (join_block st es hs)"
proof -
  have a: "\<And>w. fst (extract_bibitems_in TexSoup w tex) = extract_bibitems TexSoup tex"
    by (simp add: extract_bibitems_in_def extract_bibitems_def Let_def split: prod.splits)
  have c: "take (length store) (snd (extract_bibitems_in TexSoup store tex)) = store"
    by (simp add: extract_bibitems_in_def Let_def split: prod.splits)
  have d: "\<And>st. localized_enitites (join_block st es hs) = join es hs"
    by (simp add: join_def join_block_localized)
  show ?thesis using a c d by simp
qed

theorem repeated_calls_witness:
  "fst (extract_bibitems_in (TexSoup_returning [FoundNode empty_entry_block])
          [BibitemExtractor_init\<lparr>current_bibitem_label := Some ''stale'', bibitem_text := ''old''\<rparr>]
          ''x'')
   = Inr [\<lparr>key = ''a'', text = ''''\<rparr>, \<lparr>key = ''b'', text = ''Beta''\<rparr>]
 \<and> localized_enitites
     (join_block
        \<lparr>localized_enitites = [EntityAndLocation \<lparr>ident = ''old'', tex_path = ''o.tex''\<rparr> []],
         matching_locations = [\<lparr>tex_path = ''o.tex'', entity_id = ''old''\<rparr>]\<rparr>
        [\<lparr>ident = ''e1'', tex_path = ''p.tex''\<rparr>]
        [\<lparr>tex_path = ''p.tex'', entity_id = ''e1''\<rparr>])
   = [EntityAndLocation \<lparr>ident = ''e1'', tex_path = ''p.tex''\<rparr>
        [\<lparr>tex_path = ''p.tex'', entity_id = ''e1''\<rparr>]]"
  using repeated_calls_give_identical_output
    [of "TexSoup_returning [FoundNode empty_entry_block]"
        "[BibitemExtractor_init\<lparr>current_bibitem_label := Some ''stale'', bibitem_text := ''old''\<rparr>]"
        "''x''"
        "\<lparr>localized_enitites = [EntityAndLocation \<lparr>ident = ''old'', tex_path = ''o.tex''\<rparr> []],
         matching_locations = [\<lparr>tex_path = ''o.tex'', entity_id = ''old''\<rparr>]\<rparr>"
        "[\<lparr>ident = ''e1'', tex_path = ''p.tex''\<rparr>]"
        "[\<lparr>tex_path = ''p.tex'', entity_id = ''e1''\<rparr>]"]
  by (simp add: empty_entry_output join_def join_block_def Let_def)

end
